theory Spec2Isabelle
  imports Main "HOL-Library.Sublist" "HOL-Library.Multiset"
begin

section \<open>The note organizer: state, handlers and derived view of App.js\<close>

text \<open>
  The component \<^verbatim>\<open>App\<close> of \<^verbatim>\<open>src/notes_frontend/src/App.js\<close> keeps its state in
  React hooks and changes it in event handlers. Each handler is embedded as a function
  from the state in which it was rendered to the state after its updates are applied.
  What a handler reads from the environment is an argument: the viewport width
  (\<^verbatim>\<open>window.innerWidth\<close>), the answer of \<^verbatim>\<open>window.confirm\<close>, and the clock readings of
  \<^verbatim>\<open>Date.now()\<close> and \<^verbatim>\<open>new Date()\<close>. What it shows through \<^verbatim>\<open>alert\<close> is a result.

  Strings are \<^typ>\<open>string\<close>; the text model is ASCII (the case mapping and the white space
  of the JavaScript built-ins are written out for that range). A timestamp is the number
  of milliseconds since the epoch, an \<^typ>\<open>int\<close>: the source stores the ISO rendering of
  a valid date and reads it back with \<^verbatim>\<open>new Date(...)\<close>, which returns the same
  number of milliseconds.
\<close>

subsection \<open>Strings: the built-ins the source calls\<close>

text \<open>\<^verbatim>\<open>String.prototype.trim\<close>: white space and line terminators, ASCII range.\<close>

definition isWhiteSpace :: "char \<Rightarrow> bool" where
  "isWhiteSpace c = (c = CHR 0x09 \<or> c = CHR 0x0A \<or> c = CHR 0x0B \<or> c = CHR 0x0C
                     \<or> c = CHR 0x0D \<or> c = CHR 0x20)"

definition trim :: "string \<Rightarrow> string" where
  "trim s = rev (dropWhile isWhiteSpace (rev (dropWhile isWhiteSpace s)))"

text \<open>\<^verbatim>\<open>String.prototype.toLowerCase\<close>: the letters A to Z move to a to z.\<close>

definition toLowerChar :: "char \<Rightarrow> char" where
  "toLowerChar c =
     (let k = (of_char c :: nat) in if 65 \<le> k \<and> k \<le> 90 then char_of (k + 32) else c)"

definition toLowerCase :: "string \<Rightarrow> string" where
  "toLowerCase s = map toLowerChar s"

text \<open>\<^verbatim>\<open>s.includes(q)\<close>: \<open>q\<close> occurs in \<open>s\<close> at some position.\<close>

fun includesStr :: "string \<Rightarrow> string \<Rightarrow> bool" where
  "includesStr [] q = (q = [])"
| "includesStr (c # s) q = (prefix q (c # s) \<or> includesStr s q)"

text \<open>
  The decimal rendering of an integer, as string concatenation with a number produces
  it (\<^verbatim>\<open>"note_" + Date.now()\<close>). Clock readings are integers far below \<open>10\<^sup>2\<^sup>1\<close>, where
  JavaScript prints all digits.
\<close>

definition digitChar :: "nat \<Rightarrow> char" where
  "digitChar d = char_of (48 + d)"

function showNat :: "nat \<Rightarrow> string" where
  "showNat n = (if n < 10 then [digitChar n] else showNat (n div 10) @ [digitChar (n mod 10)])"
  by pat_completeness auto
termination
  by (relation "measure (\<lambda>n. n)") auto

declare showNat.simps [simp del]

definition numberToString :: "int \<Rightarrow> string" where
  "numberToString i = (if i < 0 then CHR ''-'' # showNat (nat (- i)) else showNat (nat i))"

subsection \<open>Data\<close>

record Note =
  noteId :: string
  title :: string
  content :: string
  createdAt :: int
  updatedAt :: int

datatype view_mode = View | Create | Edit

record app_state =
  "notes" :: "Note list"
  selectedNoteId :: "string option"
  sidebarOpen :: bool
  searchTerm :: string
  mode :: view_mode
  editTitle :: string
  editContent :: string

text \<open>
  The clock readings of one run of \<^verbatim>\<open>handleSaveNote\<close>: \<^verbatim>\<open>Date.now()\<close> for the id, and
  the two \<^verbatim>\<open>new Date()\<close> for \<^verbatim>\<open>createdAt\<close> and \<^verbatim>\<open>updatedAt\<close>.
\<close>

record readings =
  dateNow :: int
  createdNow :: int
  updatedNow :: int

subsection \<open>The derived list: \<^verbatim>\<open>sortByRecent\<close> and \<^verbatim>\<open>filteredNotes\<close>\<close>

definition sortByRecent :: "Note \<Rightarrow> Note \<Rightarrow> int" where
  "sortByRecent a b = updatedAt b - updatedAt a"

text \<open>
  \<^verbatim>\<open>Array.prototype.sort(cmp)\<close> is stable, and with a consistent comparator its result is
  determined: \<open>a\<close> stays before \<open>b\<close> unless \<open>cmp a b > 0\<close>. Insertion from the right
  computes that result.
\<close>

fun insertBy :: "('a \<Rightarrow> 'a \<Rightarrow> int) \<Rightarrow> 'a \<Rightarrow> 'a list \<Rightarrow> 'a list" where
  "insertBy cmp x [] = [x]"
| "insertBy cmp x (y # ys) = (if cmp x y \<le> 0 then x # y # ys else y # insertBy cmp x ys)"

fun sortBy :: "('a \<Rightarrow> 'a \<Rightarrow> int) \<Rightarrow> 'a list \<Rightarrow> 'a list" where
  "sortBy cmp [] = []"
| "sortBy cmp (x # xs) = insertBy cmp x (sortBy cmp xs)"

definition matches :: "string \<Rightarrow> Note \<Rightarrow> bool" where
  "matches q n = (includesStr (toLowerCase (title n)) (toLowerCase q)
                  \<or> includesStr (toLowerCase (content n)) (toLowerCase q))"

definition filteredNotes :: "Note list \<Rightarrow> string \<Rightarrow> Note list" where
  "filteredNotes ns q =
     (if q = [] then sortBy sortByRecent ns
      else sortBy sortByRecent (filter (matches q) ns))"

definition sortedDesc :: "Note list \<Rightarrow> bool" where
  "sortedDesc ns = sorted_wrt (\<lambda>a b. updatedAt b \<le> updatedAt a) ns"

subsection \<open>The handlers\<close>

definition selectedNote :: "app_state \<Rightarrow> Note option" where
  "selectedNote s =
     (case selectedNoteId s of
        None \<Rightarrow> None
      | Some i \<Rightarrow> find (\<lambda>n. noteId n = i) (notes s))"

text \<open>\<^verbatim>\<open>useState\<close> initial values; the collection is seeded by the effect below.\<close>

definition initialState :: "int \<Rightarrow> app_state" where
  "initialState innerWidth =
     \<lparr> notes = [], selectedNoteId = None, sidebarOpen = (innerWidth > 768),
       searchTerm = [], mode = View, editTitle = [], editContent = [] \<rparr>"

definition handleResize :: "int \<Rightarrow> app_state \<Rightarrow> app_state" where
  "handleResize innerWidth s = s\<lparr>sidebarOpen := (innerWidth > 768)\<rparr>"

text \<open>
  The seeding effect runs after the first render and after every render in which
  \<^verbatim>\<open>notes.length\<close> changed; it acts only on an empty collection. Its four
  \<^verbatim>\<open>new Date()\<close> are four readings.
\<close>

record seed_readings =
  created1 :: int
  updated1 :: int
  created2 :: int
  updated2 :: int

definition seedNotes :: "seed_readings \<Rightarrow> Note list" where
  "seedNotes sd =
     [ \<lparr> noteId = ''note1'', title = ''Welcome to Note Organizer'',
         content = ''This is your first note. Start organizing your thoughts!'',
         createdAt = created1 sd, updatedAt = updated1 sd \<rparr>,
       \<lparr> noteId = ''note2'', title = ''Features'',
         content = ''- Create, edit, delete notes'' @ [CHR 0x0A] @ ''- Search instantly''
                   @ [CHR 0x0A] @ ''- Beautiful, responsive UI'',
         createdAt = created2 sd, updatedAt = updated2 sd \<rparr> ]"

definition seedEffect :: "seed_readings \<Rightarrow> app_state \<Rightarrow> app_state" where
  "seedEffect sd s = (if length (notes s) = 0 then s\<lparr>notes := seedNotes sd\<rparr> else s)"

definition handleSelectNote :: "Note \<Rightarrow> app_state \<Rightarrow> app_state" where
  "handleSelectNote n s =
     s\<lparr>selectedNoteId := Some (noteId n), mode := View,
       editTitle := title n, editContent := content n\<rparr>"

definition handleCreateNoteClick :: "int \<Rightarrow> app_state \<Rightarrow> app_state" where
  "handleCreateNoteClick innerWidth s =
     (let s' = s\<lparr>mode := Create, editTitle := [], editContent := [], selectedNoteId := None\<rparr>
      in if innerWidth \<le> 768 then s'\<lparr>sidebarOpen := False\<rparr> else s')"

definition handleEditNoteClick :: "app_state \<Rightarrow> app_state" where
  "handleEditNoteClick s =
     (case selectedNote s of
        None \<Rightarrow> s
      | Some n \<Rightarrow> s\<lparr>mode := Edit, editTitle := title n, editContent := content n\<rparr>)"

definition handleDeleteNoteClick :: "bool \<Rightarrow> string \<Rightarrow> app_state \<Rightarrow> app_state" where
  "handleDeleteNoteClick confirmed x s =
     (if confirmed
      then s\<lparr>notes := filter (\<lambda>n. noteId n \<noteq> x) (notes s),
             selectedNoteId := None, mode := View\<rparr>
      else s)"

text \<open>
  The result pairs the message given to \<^verbatim>\<open>alert\<close>, if any, with the next state. The
  condition \<^verbatim>\<open>mode === "edit" && selectedNote\<close> is the case \<open>Some sel\<close>; the title is
  stored as typed, only the test trims it. \<^verbatim>\<open>setMode("view")\<close> ends all three branches.
\<close>

definition handleSaveNote :: "readings \<Rightarrow> app_state \<Rightarrow> string option \<times> app_state" where
  "handleSaveNote clk s =
     (if trim (editTitle s) = [] then (Some ''Note title cannot be empty'', s)
      else
        (case (if mode s = Edit then selectedNote s else None) of
           Some sel \<Rightarrow>
             (None,
              s\<lparr>notes := map (\<lambda>n. if noteId n = noteId sel
                                   then n\<lparr>title := editTitle s, content := editContent s,
                                          updatedAt := updatedNow clk\<rparr>
                                   else n) (notes s),
                selectedNoteId := Some (noteId sel), mode := View\<rparr>)
         | None \<Rightarrow>
             if mode s = Create
             then
               (let newNote = \<lparr> noteId = ''note_'' @ numberToString (dateNow clk),
                                title = editTitle s, content = editContent s,
                                createdAt = createdNow clk, updatedAt = updatedNow clk \<rparr>
                in (None,
                    s\<lparr>notes := newNote # notes s,
                      selectedNoteId := Some (noteId newNote), mode := View\<rparr>))
             else (None, s\<lparr>mode := View\<rparr>)))"

definition handleSidebarToggle :: "app_state \<Rightarrow> app_state" where
  "handleSidebarToggle s = s\<lparr>sidebarOpen := (\<not> sidebarOpen s)\<rparr>"

definition handleSearchChange :: "string \<Rightarrow> app_state \<Rightarrow> app_state" where
  "handleSearchChange v s = s\<lparr>searchTerm := v\<rparr>"

definition onCancel :: "app_state \<Rightarrow> app_state" where
  "onCancel s = s\<lparr>mode := View\<rparr>"

definition setEditTitle :: "string \<Rightarrow> app_state \<Rightarrow> app_state" where
  "setEditTitle v s = s\<lparr>editTitle := v\<rparr>"

definition setEditContent :: "string \<Rightarrow> app_state \<Rightarrow> app_state" where
  "setEditContent v s = s\<lparr>editContent := v\<rparr>"

subsection \<open>Rendering and the event loop\<close>

text \<open>
  With an empty search term the memo \<^verbatim>\<open>filteredNotes\<close> returns \<^verbatim>\<open>notes.sort(sortByRecent)\<close>:
  the sort is in place, so a render leaves the state's own array sorted. With a search
  term the sort works on the copy that \<^verbatim>\<open>filter\<close> returns.
\<close>

definition render :: "app_state \<Rightarrow> app_state" where
  "render s = (if searchTerm s = [] then s\<lparr>notes := sortBy sortByRecent (notes s)\<rparr> else s)"

definition visibleNotes :: "app_state \<Rightarrow> Note list" where
  "visibleNotes s = filteredNotes (notes s) (searchTerm s)"

datatype event =
    SelectNote Note
  | CreateNoteClick int
  | EditNoteClick
  | DeleteNoteClick string bool
  | SaveNote readings
  | Cancel
  | SidebarToggle
  | SearchChange string
  | TitleChange string
  | ContentChange string
  | Resize int

fun handle :: "event \<Rightarrow> app_state \<Rightarrow> app_state" where
  "handle (SelectNote n) s = handleSelectNote n s"
| "handle (CreateNoteClick w) s = handleCreateNoteClick w s"
| "handle EditNoteClick s = handleEditNoteClick s"
| "handle (DeleteNoteClick x confirmed) s = handleDeleteNoteClick confirmed x s"
| "handle (SaveNote clk) s = snd (handleSaveNote clk s)"
| "handle Cancel s = onCancel s"
| "handle SidebarToggle s = handleSidebarToggle s"
| "handle (SearchChange v) s = handleSearchChange v s"
| "handle (TitleChange v) s = setEditTitle v s"
| "handle (ContentChange v) s = setEditContent v s"
| "handle (Resize w) s = handleResize w s"

text \<open>
  One event: the handler, the render it causes, the seeding effect (which finds the
  collection empty only after the last note was deleted), and the render that follows.
  Mounting is the first render of the initial state, the effect, and a render.
\<close>

definition dispatch :: "seed_readings \<Rightarrow> event \<Rightarrow> app_state \<Rightarrow> app_state" where
  "dispatch sd ev s = render (seedEffect sd (render (handle ev s)))"

definition mount :: "int \<Rightarrow> seed_readings \<Rightarrow> app_state" where
  "mount innerWidth sd = render (seedEffect sd (render (initialState innerWidth)))"

fun run :: "app_state \<Rightarrow> (seed_readings \<times> event) list \<Rightarrow> app_state" where
  "run s [] = s"
| "run s ((sd, ev) # tr) = run (dispatch sd ev s) tr"

text \<open>
  A save request reaches the creating branch, the only place that calls \<^verbatim>\<open>Date.now()\<close>,
  when the trimmed title is not empty and the mode is creating. The readings a trace
  takes there, in order:
\<close>

definition createsNote :: "app_state \<Rightarrow> bool" where
  "createsNote s = (trim (editTitle s) \<noteq> [] \<and> mode s = Create)"

fun createStamps :: "app_state \<Rightarrow> (seed_readings \<times> event) list \<Rightarrow> int list" where
  "createStamps s [] = []"
| "createStamps s ((sd, ev) # tr) =
     (case ev of
        SaveNote clk \<Rightarrow> if createsNote s then [dateNow clk] else []
      | _ \<Rightarrow> [])
     @ createStamps (dispatch sd ev s) tr"

subsection \<open>Sample inputs\<close>

text \<open>
  A desktop viewport, seeded at time 1000; one clock value for all readings of a save;
  the state after clicking the second note and then Edit.
\<close>

definition seed0 :: seed_readings where
  "seed0 = \<lparr> created1 = 1000, updated1 = 1000, created2 = 1000, updated2 = 1000 \<rparr>"

definition clockAt :: "int \<Rightarrow> readings" where
  "clockAt t = \<lparr> dateNow = t, createdNow = t, updatedNow = t \<rparr>"

definition mounted :: app_state where
  "mounted = mount 1024 seed0"

definition editingSecond :: app_state where
  "editingSecond = run mounted [(seed0, SelectNote (seedNotes seed0 ! 1)), (seed0, EditNoteClick)]"

text \<open>
  Two notes, the older one first, as the collection is after the second of two notes
  was edited; the form states that the traces below reach; two creations, a millisecond
  apart and within the same millisecond.
\<close>

definition olderNote :: Note where
  "olderNote = \<lparr> noteId = ''note1'', title = ''Welcome'', content = ''first'',
                  createdAt = 1000, updatedAt = 1000 \<rparr>"

definition newerNote :: Note where
  "newerNote = \<lparr> noteId = ''note2'', title = ''Features'', content = ''second'',
                  createdAt = 1000, updatedAt = 3000 \<rparr>"

definition creatingShopping :: app_state where
  "creatingShopping =
     run mounted [(seed0, CreateNoteClick 1024), (seed0, TitleChange ''Shopping List''),
                  (seed0, ContentChange ''Milk'')]"

definition searchingThenCreating :: app_state where
  "searchingThenCreating =
     run mounted [(seed0, SearchChange ''zzz''), (seed0, CreateNoteClick 1024),
                  (seed0, TitleChange ''Shopping List'')]"

definition twoCreates :: "(seed_readings \<times> event) list" where
  "twoCreates =
     [(seed0, CreateNoteClick 1024), (seed0, TitleChange ''a''), (seed0, SaveNote (clockAt 2000)),
      (seed0, CreateNoteClick 1024), (seed0, TitleChange ''b''), (seed0, SaveNote (clockAt 2001))]"

definition twoCreatesSameMs :: "(seed_readings \<times> event) list" where
  "twoCreatesSameMs =
     [(seed0, CreateNoteClick 1024), (seed0, TitleChange ''a''), (seed0, SaveNote (clockAt 2000)),
      (seed0, CreateNoteClick 1024), (seed0, TitleChange ''b''), (seed0, SaveNote (clockAt 2000))]"

text \<open>
  After the two creations within the same millisecond: the newer note clicked, Edit
  clicked, and the title replaced by "c".
\<close>

definition editingDuplicate :: app_state where
  "editingDuplicate =
     run mounted
       (twoCreatesSameMs
        @ [(seed0, SelectNote \<lparr> noteId = ''note_2000'', title = ''b'', content = [],
                                 createdAt = 2000, updatedAt = 2000 \<rparr>),
           (seed0, EditNoteClick), (seed0, TitleChange ''c'')])"

subsection \<open>Ids made from clock readings\<close>

text \<open>
  The ids a collection can hold when \<open>U\<close> are the \<^verbatim>\<open>Date.now()\<close> readings used so far:
  the two seeded ids and \<^verbatim>\<open>"note_" + t\<close> for \<open>t\<close> in \<open>U\<close>.
\<close>

definition stampedIds :: "int set \<Rightarrow> string set" where
  "stampedIds U = {''note1'', ''note2''} \<union> (\<lambda>t. ''note_'' @ numberToString t) ` U"

definition idsOk :: "int set \<Rightarrow> app_state \<Rightarrow> bool" where
  "idsOk U s = (distinct (map noteId (notes s)) \<and> noteId ` set (notes s) \<subseteq> stampedIds U)"

section \<open>Properties\<close>

subsection \<open>The sidebar\<close>

text \<open>
  C8. \<open>sidebarOpen\<close> starts as \<open>width > 768\<close>; a resize sets it to \<open>width > 768\<close>
  whatever it was; the toggle negates it; at width 500 the sidebar starts closed, one
  toggle opens it and a second one closes it.
\<close>

theorem sidebar_visibility:
  "sidebarOpen (initialState w) = (w > 768)
   \<and> sidebarOpen (handleResize w s) = (w > 768)
   \<and> sidebarOpen (handleSidebarToggle s) = (\<not> sidebarOpen s)
   \<and> sidebarOpen (initialState 500) = False
   \<and> sidebarOpen (handleSidebarToggle (initialState 500)) = True
   \<and> sidebarOpen (handleSidebarToggle (handleSidebarToggle (initialState 500))) = False"
  by (simp add: initialState_def handleResize_def handleSidebarToggle_def)

subsection \<open>Saving\<close>

lemma all_dropWhile_iff: "(\<forall>x \<in> set (dropWhile P t). P x) \<longleftrightarrow> (\<forall>x \<in> set t. P x)"
proof
  assume a: "\<forall>x \<in> set (dropWhile P t). P x"
  have "dropWhile P t = []"
  proof (rule ccontr)
    assume ne: "dropWhile P t \<noteq> []"
    then have "\<not> P (hd (dropWhile P t))" by (rule hd_dropWhile)
    moreover from ne have "hd (dropWhile P t) \<in> set (dropWhile P t)" by simp
    ultimately show False using a by blast
  qed
  then show "\<forall>x \<in> set t. P x" by (simp add: dropWhile_eq_Nil_conv)
next
  assume "\<forall>x \<in> set t. P x"
  then show "\<forall>x \<in> set (dropWhile P t). P x" by (auto dest: set_dropWhileD)
qed

lemma trim_empty_iff: "trim t = [] \<longleftrightarrow> (\<forall>c \<in> set t. isWhiteSpace c)"
  by (simp add: trim_def dropWhile_eq_Nil_conv all_dropWhile_iff)

text \<open>
  C1. A save request whose title has an empty trimmed form is refused: \<^verbatim>\<open>alert\<close> gets
  a message that contains "title cannot be empty", and the state (collection, selected
  id, mode and all the rest) is the one before, so the form stays open.
\<close>

theorem save_empty_title_rejected:
  assumes "trim t = []" and "editTitle s = t"
  shows "handleSaveNote clk s = (Some ''Note title cannot be empty'', s)
         \<and> includesStr ''Note title cannot be empty'' ''title cannot be empty''"
  using assms by (simp add: handleSaveNote_def)

theorem save_empty_title_rejected_witness:
  "trim ''  '' = []
   \<and> handleSaveNote (clockAt 2000) (setEditTitle ''  '' (handleCreateNoteClick 1024 mounted))
     = (Some ''Note title cannot be empty'', setEditTitle ''  '' (handleCreateNoteClick 1024 mounted))"
proof -
  have h: "trim ''  '' = []" by (simp add: trim_empty_iff isWhiteSpace_def)
  have e: "editTitle (setEditTitle ''  '' (handleCreateNoteClick 1024 mounted)) = ''  ''"
    by (simp add: setEditTitle_def)
  from save_empty_title_rejected [OF h e, of "clockAt 2000"] h show ?thesis by simp
qed

text \<open>
  C10. In viewing mode, or in editing mode when the selected id matches no note, a save
  request with a title whose trimmed form is not empty changes nothing but the mode,
  which becomes viewing: the collection and the selection stay as they are.
\<close>

theorem save_outside_form_keeps_notes:
  assumes "trim (editTitle s) \<noteq> []"
    and "mode s = View \<or> (mode s = Edit \<and> selectedNote s = None)"
  shows "handleSaveNote clk s = (None, s\<lparr>mode := View\<rparr>)
         \<and> notes (snd (handleSaveNote clk s)) = notes s
         \<and> selectedNoteId (snd (handleSaveNote clk s)) = selectedNoteId s
         \<and> mode (snd (handleSaveNote clk s)) = View"
  using assms by (auto simp: handleSaveNote_def)

theorem save_outside_form_keeps_notes_witness:
  "mode (setEditTitle ''x'' mounted) = View
   \<and> handleSaveNote (clockAt 2000) (setEditTitle ''x'' mounted)
       = (None, (setEditTitle ''x'' mounted)\<lparr>mode := View\<rparr>)
   \<and> mode (editingSecond\<lparr>selectedNoteId := Some ''note9''\<rparr>) = Edit
   \<and> selectedNote (editingSecond\<lparr>selectedNoteId := Some ''note9''\<rparr>) = None
   \<and> handleSaveNote (clockAt 2000) (editingSecond\<lparr>selectedNoteId := Some ''note9''\<rparr>)
       = (None, editingSecond\<lparr>selectedNoteId := Some ''note9'', mode := View\<rparr>)"
proof -
  let ?v = "setEditTitle ''x'' mounted"
  let ?e = "editingSecond\<lparr>selectedNoteId := Some ''note9''\<rparr>"
  have v1: "trim (editTitle ?v) \<noteq> []"
    by (simp add: setEditTitle_def trim_def isWhiteSpace_def)
  have vm: "mode ?v = View"
    by code_simp
  then have v2: "mode ?v = View \<or> (mode ?v = Edit \<and> selectedNote ?v = None)"
    by simp
  have e1: "trim (editTitle ?e) \<noteq> []"
    by code_simp
  have em: "mode ?e = Edit" and es: "selectedNote ?e = None"
    by code_simp+
  then have e2: "mode ?e = View \<or> (mode ?e = Edit \<and> selectedNote ?e = None)"
    by simp
  from save_outside_form_keeps_notes [OF v1 v2, of "clockAt 2000"]
    save_outside_form_keeps_notes [OF e1 e2, of "clockAt 2000"] vm em es
  show ?thesis by simp
qed

lemma find_by_id:
  "n \<in> set ns \<Longrightarrow> distinct (map noteId ns) \<Longrightarrow> find (\<lambda>m. noteId m = noteId n) ns = Some n"
proof (induction ns)
  case Nil
  then show ?case by simp
next
  case (Cons a ns)
  show ?case
  proof (cases "a = n")
    case True
    then show ?thesis by simp
  next
    case False
    with Cons.prems have mem: "n \<in> set ns" and d: "distinct (map noteId ns)"
      and "noteId a \<notin> noteId ` set ns" by simp_all
    with mem have "noteId a \<noteq> noteId n" by force
    with Cons.IH [OF mem d] show ?thesis by simp
  qed
qed

lemma same_id_same_note:
  "distinct (map noteId ns) \<Longrightarrow> n \<in> set ns \<Longrightarrow> m \<in> set ns \<Longrightarrow> noteId m = noteId n \<Longrightarrow> m = n"
  by (meson distinct_map inj_onD)

text \<open>
  The update where ids are pairwise distinct. A note \<open>n\<close> of the collection is selected
  in editing mode and the title has a trimmed form that is not empty: the save replaces
  \<open>n\<close> by \<open>n\<close> with the title and content of the form and \<open>updatedAt\<close> set to the clock
  reading, every other note stays as it is and where it is, the id and \<open>createdAt\<close> of
  \<open>n\<close> are kept, and \<open>n\<close> stays selected. When the form holds the title and content \<open>n\<close>
  already has, only \<open>updatedAt\<close> changes.
\<close>

lemma update_with_distinct_ids:
  assumes "n \<in> set (notes s)"
    and "distinct (map noteId (notes s))"
    and "mode s = Edit"
    and "selectedNoteId s = Some (noteId n)"
    and "trim (editTitle s) \<noteq> []"
  shows "fst (handleSaveNote clk s) = None
    \<and> notes (snd (handleSaveNote clk s))
        = map (\<lambda>m. if m = n
                    then n\<lparr>title := editTitle s, content := editContent s,
                           updatedAt := updatedNow clk\<rparr>
                    else m) (notes s)
    \<and> selectedNoteId (snd (handleSaveNote clk s)) = selectedNoteId s
    \<and> noteId (n\<lparr>title := editTitle s, content := editContent s, updatedAt := updatedNow clk\<rparr>)
        = noteId n
    \<and> createdAt (n\<lparr>title := editTitle s, content := editContent s, updatedAt := updatedNow clk\<rparr>)
        = createdAt n
    \<and> (editTitle s = title n \<and> editContent s = content n \<longrightarrow>
        n\<lparr>title := editTitle s, content := editContent s, updatedAt := updatedNow clk\<rparr>
          = n\<lparr>updatedAt := updatedNow clk\<rparr>)"
proof -
  from assms have sel: "selectedNote s = Some n"
    by (simp add: selectedNote_def find_by_id)
  have same: "map (\<lambda>m. if noteId m = noteId n then m\<lparr>title := editTitle s, content := editContent s,
                                          updatedAt := updatedNow clk\<rparr> else m) (notes s)
     = map (\<lambda>m. if m = n
                    then n\<lparr>title := editTitle s, content := editContent s,
                           updatedAt := updatedNow clk\<rparr>
                    else m) (notes s)"
  proof (rule map_cong [OF refl])
    fix m assume "m \<in> set (notes s)"
    with assms(1,2) have "noteId m = noteId n \<longleftrightarrow> m = n"
      by (auto dest: same_id_same_note)
    then show "(if noteId m = noteId n then m\<lparr>title := editTitle s, content := editContent s,
                                          updatedAt := updatedNow clk\<rparr> else m)
       = (if m = n then n\<lparr>title := editTitle s, content := editContent s,
                           updatedAt := updatedNow clk\<rparr> else m)"
      by auto
  qed
  from assms(3,4,5) sel same show ?thesis
    by (simp add: handleSaveNote_def)
qed

lemma update_with_distinct_ids_example:
  "notes (snd (handleSaveNote (clockAt 2000) (setEditTitle ''Features (edited)'' editingSecond)))
     = [seedNotes seed0 ! 0,
        (seedNotes seed0 ! 1)\<lparr>title := ''Features (edited)'', updatedAt := 2000\<rparr>]"
proof -
  let ?s = "setEditTitle ''Features (edited)'' editingSecond"
  let ?n = "seedNotes seed0 ! 1"
  have st: "?s = \<lparr> notes = seedNotes seed0, selectedNoteId = Some ''note2'', sidebarOpen = True,
                   searchTerm = [], mode = Edit, editTitle = ''Features (edited)'',
                   editContent = content ?n \<rparr>"
    by code_simp
  have h1: "?n \<in> set (notes ?s)" unfolding st by (simp add: seedNotes_def)
  have h2: "distinct (map noteId (notes ?s))" unfolding st by (simp add: seedNotes_def)
  have h3: "mode ?s = Edit" unfolding st by simp
  have h4: "selectedNoteId ?s = Some (noteId ?n)" unfolding st by (simp add: seedNotes_def)
  have h5: "trim (editTitle ?s) \<noteq> []" unfolding st by (simp add: trim_def isWhiteSpace_def)
  from update_with_distinct_ids [OF h1 h2 h3 h4 h5, of "clockAt 2000"]
  have "notes (snd (handleSaveNote (clockAt 2000) ?s))
        = map (\<lambda>m. if m = ?n
                    then ?n\<lparr>title := editTitle ?s, content := editContent ?s,
                           updatedAt := updatedNow (clockAt 2000)\<rparr>
                    else m) (notes ?s)"
    by blast
  then show ?thesis unfolding st by (simp add: seedNotes_def clockAt_def)
qed

text \<open>The state in which the two notes created within one millisecond are edited.\<close>

lemma editingDuplicate_state:
  "editingDuplicate =
     \<lparr> notes = [\<lparr> noteId = ''note_2000'', title = ''b'', content = [],
                   createdAt = 2000, updatedAt = 2000 \<rparr>,
                 \<lparr> noteId = ''note_2000'', title = ''a'', content = [],
                   createdAt = 2000, updatedAt = 2000 \<rparr>]
                @ seedNotes seed0,
       selectedNoteId = Some ''note_2000'', sidebarOpen = True, searchTerm = [],
       mode = Edit, editTitle = ''c'', editContent = [] \<rparr>"
  by code_simp

text \<open>
  C4. A successful update is to replace the title, the content and \<open>updatedAt\<close> of the
  selected note and to leave every other note as it is. The edit branch finds the note
  by its id. In the state above two notes carry the id \<open>note_2000\<close>; the newer one, titled
  "b", is selected and the form holds the title "c". The save at reading 3000 rewrites
  both: the other note, titled "a", gets the title "c" and \<open>updatedAt\<close> 3000 as well.
\<close>

theorem duplicate_id_update_rewrites_both:
  "map noteId (notes editingDuplicate) = [''note_2000'', ''note_2000'', ''note1'', ''note2'']
   \<and> map title (notes editingDuplicate)
       = [''b'', ''a'', ''Welcome to Note Organizer'', ''Features'']
   \<and> selectedNote editingDuplicate
       = Some \<lparr> noteId = ''note_2000'', title = ''b'', content = [],
                 createdAt = 2000, updatedAt = 2000 \<rparr>
   \<and> mode editingDuplicate = Edit
   \<and> editTitle editingDuplicate = ''c''
   \<and> fst (handleSaveNote (clockAt 3000) editingDuplicate) = None
   \<and> map title (notes (snd (handleSaveNote (clockAt 3000) editingDuplicate)))
       = [''c'', ''c'', ''Welcome to Note Organizer'', ''Features'']
   \<and> map updatedAt (notes (snd (handleSaveNote (clockAt 3000) editingDuplicate)))
       = [3000, 3000, 1000, 1000]"
  unfolding editingDuplicate_state
  by (simp add: handleSaveNote_def selectedNote_def seedNotes_def seed0_def clockAt_def
        trim_def isWhiteSpace_def)

subsection \<open>Deleting\<close>

text \<open>
  C3, as the handler has it. A confirmed delete of id \<open>x\<close> removes every note with id
  \<open>x\<close> and keeps the others in order; it clears the selection and sets the mode to
  viewing whether or not \<open>x\<close> was the selected note. A declined confirmation changes
  nothing.
\<close>

theorem delete_clears_selection:
  "handleDeleteNoteClick True x s
     = s\<lparr>notes := filter (\<lambda>n. noteId n \<noteq> x) (notes s), selectedNoteId := None, mode := View\<rparr>
   \<and> x \<notin> noteId ` set (notes (handleDeleteNoteClick True x s))
   \<and> handleDeleteNoteClick False x s = s"
  by (auto simp: handleDeleteNoteClick_def)

text \<open>
  The second note is selected and being edited; the confirmed delete of the first note
  clears the selection and leaves editing mode.
\<close>

theorem delete_other_note_counterexample:
  "selectedNoteId editingSecond = Some ''note2''
   \<and> mode editingSecond = Edit
   \<and> selectedNoteId (handleDeleteNoteClick True ''note1'' editingSecond) = None
   \<and> mode (handleDeleteNoteClick True ''note1'' editingSecond) = View"
  by code_simp

subsection \<open>Opening and leaving the form\<close>

text \<open>
  C9. A create request clears the selection (the selected id becomes null), empties both
  draft fields and sets the mode to creating; the collection is not touched.
\<close>

theorem create_click_clears_selection:
  "selectedNoteId (handleCreateNoteClick w s) = None
   \<and> mode (handleCreateNoteClick w s) = Create
   \<and> editTitle (handleCreateNoteClick w s) = []
   \<and> editContent (handleCreateNoteClick w s) = []
   \<and> notes (handleCreateNoteClick w s) = notes s"
  by (simp add: handleCreateNoteClick_def Let_def)

text \<open>
  C7. A cancel request sets the mode to viewing and leaves the collection and the
  selection unchanged. The drafts are discarded in that they are not written back and
  never read again: a save request after the cancel writes no note, and the next form is
  the same whatever the two draft fields held at the cancel (a create request empties
  them, an edit request fills them from the selected note). The handler itself only
  sets the mode.
\<close>

theorem cancel_returns_to_view:
  "onCancel s = s\<lparr>mode := View\<rparr>
   \<and> mode (onCancel s) = View
   \<and> notes (onCancel s) = notes s
   \<and> selectedNoteId (onCancel s) = selectedNoteId s
   \<and> notes (snd (handleSaveNote clk (onCancel s))) = notes s
   \<and> handleCreateNoteClick w (onCancel (s\<lparr>editTitle := a, editContent := b\<rparr>))
       = handleCreateNoteClick w (onCancel s)
   \<and> (selectedNote s \<noteq> None \<longrightarrow>
        handleEditNoteClick (onCancel (s\<lparr>editTitle := a, editContent := b\<rparr>))
          = handleEditNoteClick (onCancel s))"
  by (auto simp: onCancel_def handleSaveNote_def handleCreateNoteClick_def Let_def
        handleEditNoteClick_def selectedNote_def split: option.splits)

theorem cancel_returns_to_view_witness:
  "selectedNote editingSecond \<noteq> None
   \<and> handleEditNoteClick (onCancel (editingSecond\<lparr>editTitle := ''draft'', editContent := ''text''\<rparr>))
       = handleEditNoteClick (onCancel editingSecond)"
proof -
  have h: "selectedNote editingSecond \<noteq> None" by code_simp
  with cancel_returns_to_view [where s = editingSecond and a = "''draft''" and b = "''text''"]
  show ?thesis by blast
qed

subsection \<open>The derived list\<close>

lemma mset_insertBy: "mset (insertBy cmp x xs) = add_mset x (mset xs)"
  by (induction xs) simp_all

lemma mset_sortBy: "mset (sortBy cmp xs) = mset xs"
  by (induction xs) (simp_all add: mset_insertBy)

lemma set_sortBy: "set (sortBy cmp xs) = set xs"
  using mset_sortBy [of cmp xs] by (metis set_mset_mset)

lemma distinct_map_sortBy: "distinct (map f (sortBy cmp xs)) = distinct (map f xs)"
proof -
  have "mset (map f (sortBy cmp xs)) = mset (map f xs)"
    by (simp add: mset_sortBy)
  then show ?thesis by (rule mset_eq_imp_distinct_iff)
qed

lemma set_insertBy: "set (insertBy cmp x xs) = insert x (set xs)"
  by (induction xs) auto

lemma sortedDesc_insertBy:
  "sortedDesc xs \<Longrightarrow> sortedDesc (insertBy sortByRecent x xs)"
  unfolding sortedDesc_def
  by (induction xs) (auto simp: sortByRecent_def set_insertBy)

lemma sortedDesc_sortBy: "sortedDesc (sortBy sortByRecent xs)"
proof (induction xs)
  case Nil
  show ?case by (simp add: sortedDesc_def)
next
  case (Cons x xs)
  then show ?case by (simp add: sortedDesc_insertBy)
qed

lemma insertBy_first: "\<forall>y \<in> set ys. cmp x y \<le> 0 \<Longrightarrow> insertBy cmp x ys = x # ys"
  by (cases ys) simp_all

lemma sortBy_sortedDesc: "sortedDesc ns \<Longrightarrow> sortBy sortByRecent ns = ns"
proof (induction ns)
  case Nil
  show ?case by simp
next
  case (Cons n ns)
  from Cons.prems have tl: "sortedDesc ns" and hd: "\<forall>m \<in> set ns. sortByRecent n m \<le> 0"
    by (simp_all add: sortedDesc_def sortByRecent_def)
  from Cons.IH [OF tl] hd show ?case by (simp add: insertBy_first)
qed

lemma sortBy_newest_first:
  "\<forall>m \<in> set ns. updatedAt m \<le> updatedAt n \<Longrightarrow>
   sortBy sortByRecent (n # ns) = n # sortBy sortByRecent ns"
proof -
  assume "\<forall>m \<in> set ns. updatedAt m \<le> updatedAt n"
  then have "\<forall>m \<in> set (sortBy sortByRecent ns). sortByRecent n m \<le> 0"
    by (simp add: set_sortBy sortByRecent_def)
  then show ?thesis by (simp add: insertBy_first)
qed

lemma includesStr_iff: "includesStr s q \<longleftrightarrow> (\<exists>p r. s = p @ q @ r)"
proof (induction s)
  case Nil
  then show ?case by auto
next
  case (Cons c s)
  show ?case
  proof
    assume "includesStr (c # s) q"
    then consider "prefix q (c # s)" | "includesStr s q" by auto
    then show "\<exists>p r. c # s = p @ q @ r"
    proof cases
      case 1
      then obtain r where "c # s = q @ r" by (auto simp: prefix_def)
      then have "c # s = [] @ q @ r" by simp
      then show ?thesis by blast
    next
      case 2
      with Cons.IH obtain p r where "s = p @ q @ r" by blast
      then have "c # s = (c # p) @ q @ r" by simp
      then show ?thesis by blast
    qed
  next
    assume "\<exists>p r. c # s = p @ q @ r"
    then obtain p r where e: "c # s = p @ q @ r" by blast
    show "includesStr (c # s) q"
    proof (cases p)
      case Nil
      with e have "prefix q (c # s)" by (auto simp: prefix_def)
      then show ?thesis by simp
    next
      case (Cons a p')
      with e have "s = p' @ q @ r" by simp
      with Cons.IH have "includesStr s q" by blast
      then show ?thesis by simp
    qed
  qed
qed

lemma includesStr_empty: "includesStr s []"
  by (cases s) simp_all

lemma matches_empty: "matches [] n"
  by (simp add: matches_def toLowerCase_def includesStr_empty)

lemma filteredNotes_eq: "filteredNotes ns q = sortBy sortByRecent (filter (matches q) ns)"
  by (simp add: filteredNotes_def matches_empty)

text \<open>
  C6, as the memo has it. For every list of notes and every query, \<open>filteredNotes\<close> is
  the stable sort by \<open>updatedAt\<close> descending of the notes that match: a note is in the
  result exactly when it is in the input and its lower-cased title or its lower-cased
  content, each on its own, contains the lower-cased query; every note is kept as often
  as it occurs. The empty query keeps all notes and returns them sorted, so in their
  input order when the input is already sorted. The result is always a subset of the
  input, and two queries equal up to case give the same result.
\<close>

theorem filteredNotes_selects_matches:
  "filteredNotes ns q = sortBy sortByRecent (filter (matches q) ns)
   \<and> (n \<in> set (filteredNotes ns q) \<longleftrightarrow>
        n \<in> set ns
        \<and> ((\<exists>p r. toLowerCase (title n) = p @ toLowerCase q @ r)
           \<or> (\<exists>p r. toLowerCase (content n) = p @ toLowerCase q @ r)))
   \<and> mset (filteredNotes ns q) = mset (filter (matches q) ns)
   \<and> mset (filteredNotes ns []) = mset ns
   \<and> sortedDesc (filteredNotes ns [])
   \<and> (sortedDesc ns \<longrightarrow> filteredNotes ns [] = ns)
   \<and> set (filteredNotes ns q) \<subseteq> set ns
   \<and> (toLowerCase q = toLowerCase q' \<longrightarrow> filteredNotes ns q = filteredNotes ns q')"
proof -
  have a: "filteredNotes ns q = sortBy sortByRecent (filter (matches q) ns)"
    by (rule filteredNotes_eq)
  have b: "n \<in> set (filteredNotes ns q) \<longleftrightarrow>
        n \<in> set ns
        \<and> ((\<exists>p r. toLowerCase (title n) = p @ toLowerCase q @ r)
           \<or> (\<exists>p r. toLowerCase (content n) = p @ toLowerCase q @ r))"
    by (simp add: filteredNotes_eq set_sortBy matches_def includesStr_iff)
  have c: "mset (filteredNotes ns q) = mset (filter (matches q) ns)"
    by (simp add: filteredNotes_eq mset_sortBy)
  have d: "mset (filteredNotes ns []) = mset ns"
    by (simp add: filteredNotes_def mset_sortBy)
  have e: "sortedDesc (filteredNotes ns [])"
    by (simp add: filteredNotes_def sortedDesc_sortBy)
  have f: "sortedDesc ns \<longrightarrow> filteredNotes ns [] = ns"
    by (simp add: filteredNotes_def sortBy_sortedDesc)
  have g: "set (filteredNotes ns q) \<subseteq> set ns"
    by (auto simp: filteredNotes_eq set_sortBy)
  have h: "toLowerCase q = toLowerCase q' \<longrightarrow> filteredNotes ns q = filteredNotes ns q'"
  proof
    assume l: "toLowerCase q = toLowerCase q'"
    then have "matches q = matches q'" by (auto simp: matches_def fun_eq_iff)
    then show "filteredNotes ns q = filteredNotes ns q'" by (simp add: filteredNotes_eq)
  qed
  from a b c d e f g h show ?thesis by blast
qed

theorem filteredNotes_selects_matches_witness:
  "sortedDesc [newerNote, olderNote]
   \<and> filteredNotes [newerNote, olderNote] [] = [newerNote, olderNote]
   \<and> toLowerCase ''FEATURES'' = toLowerCase ''features''
   \<and> filteredNotes [newerNote, olderNote] ''FEATURES'' = filteredNotes [newerNote, olderNote] ''features''"
proof -
  have s: "sortedDesc [newerNote, olderNote]"
    by (simp add: sortedDesc_def newerNote_def olderNote_def)
  have l: "toLowerCase ''FEATURES'' = toLowerCase ''features''"
    by code_simp
  from filteredNotes_selects_matches [of "[newerNote, olderNote]" "''FEATURES''" newerNote "''features''"] s l
  show ?thesis by blast
qed

text \<open>The empty query on a collection whose older note comes first returns the newer one first.\<close>

theorem filter_empty_query_counterexample:
  "filteredNotes [olderNote, newerNote] [] = [newerNote, olderNote]
   \<and> filteredNotes [olderNote, newerNote] [] \<noteq> [olderNote, newerNote]"
  by code_simp

text \<open>
  C5, as the memo has it. The visible list is sorted by \<open>updatedAt\<close> descending for every
  collection and every query. A note created when no note of the collection has a later
  \<open>updatedAt\<close> than the reading the new note gets is put in front of the visible list,
  provided it passes the search filter (as it does when the search term is empty); the rest of the
  list is as before.
\<close>

theorem visible_list_sorted_newest_first:
  assumes "mode s = Create"
    and "trim (editTitle s) \<noteq> []"
    and "\<forall>m \<in> set (notes s). updatedAt m \<le> updatedNow clk"
    and "searchTerm s = []
         \<or> includesStr (toLowerCase (editTitle s)) (toLowerCase (searchTerm s))
         \<or> includesStr (toLowerCase (editContent s)) (toLowerCase (searchTerm s))"
  shows "sortedDesc (filteredNotes ns q)
    \<and> visibleNotes (snd (handleSaveNote clk s))
        = \<lparr> noteId = ''note_'' @ numberToString (dateNow clk),
            title = editTitle s, content = editContent s,
            createdAt = createdNow clk, updatedAt = updatedNow clk \<rparr> # visibleNotes s"
proof -
  let ?new = "\<lparr> noteId = ''note_'' @ numberToString (dateNow clk),
            title = editTitle s, content = editContent s,
            createdAt = createdNow clk, updatedAt = updatedNow clk \<rparr>"
  have sorted: "sortedDesc (filteredNotes ns q)"
    by (simp add: filteredNotes_eq sortedDesc_sortBy)
  from assms(1,2) have st: "snd (handleSaveNote clk s)
      = s\<lparr>notes := ?new # notes s, selectedNoteId := Some (noteId ?new), mode := View\<rparr>"
    by (simp add: handleSaveNote_def Let_def)
  from assms(4) have m: "matches (searchTerm s) ?new"
    by (auto simp: matches_def toLowerCase_def includesStr_empty)
  from assms(3) have le: "\<forall>m \<in> set (filter (matches (searchTerm s)) (notes s)).
      updatedAt m \<le> updatedAt ?new"
    by simp
  have "visibleNotes (snd (handleSaveNote clk s))
        = sortBy sortByRecent (?new # filter (matches (searchTerm s)) (notes s))"
    unfolding st using m by (simp add: visibleNotes_def filteredNotes_eq)
  also have "\<dots> = ?new # sortBy sortByRecent (filter (matches (searchTerm s)) (notes s))"
    using le by (rule sortBy_newest_first)
  also have "\<dots> = ?new # visibleNotes s"
    by (simp add: visibleNotes_def filteredNotes_eq)
  finally show ?thesis using sorted by blast
qed

theorem visible_list_sorted_newest_first_witness:
  "mode creatingShopping = Create
   \<and> visibleNotes (snd (handleSaveNote (clockAt 2000) creatingShopping))
      = \<lparr> noteId = ''note_2000'', title = ''Shopping List'', content = ''Milk'',
          createdAt = 2000, updatedAt = 2000 \<rparr> # visibleNotes creatingShopping"
proof -
  have st: "creatingShopping = \<lparr> notes = seedNotes seed0, selectedNoteId = None, sidebarOpen = True,
        searchTerm = [], mode = Create, editTitle = ''Shopping List'', editContent = ''Milk'' \<rparr>"
    by code_simp
  have h1: "mode creatingShopping = Create" unfolding st by simp
  have h2: "trim (editTitle creatingShopping) \<noteq> []"
    unfolding st by (simp add: trim_def isWhiteSpace_def)
  have h3: "\<forall>m \<in> set (notes creatingShopping). updatedAt m \<le> updatedNow (clockAt 2000)"
    unfolding st by (simp add: seedNotes_def seed0_def clockAt_def)
  have h4: "searchTerm creatingShopping = []
         \<or> includesStr (toLowerCase (editTitle creatingShopping)) (toLowerCase (searchTerm creatingShopping))
         \<or> includesStr (toLowerCase (editContent creatingShopping)) (toLowerCase (searchTerm creatingShopping))"
    unfolding st by simp
  have n: "numberToString 2000 = ''2000''" by code_simp
  from visible_list_sorted_newest_first [OF h1 h2 h3 h4] h1
  have "visibleNotes (snd (handleSaveNote (clockAt 2000) creatingShopping))
        = \<lparr> noteId = ''note_'' @ numberToString (dateNow (clockAt 2000)),
            title = editTitle creatingShopping, content = editContent creatingShopping,
            createdAt = createdNow (clockAt 2000), updatedAt = updatedNow (clockAt 2000) \<rparr>
          # visibleNotes creatingShopping"
    by blast
  also have "\<lparr> noteId = ''note_'' @ numberToString (dateNow (clockAt 2000)),
            title = editTitle creatingShopping, content = editContent creatingShopping,
            createdAt = createdNow (clockAt 2000), updatedAt = updatedNow (clockAt 2000) \<rparr>
       = \<lparr> noteId = ''note_2000'', title = ''Shopping List'', content = ''Milk'',
          createdAt = 2000, updatedAt = 2000 \<rparr>"
    unfolding st by (simp add: clockAt_def n)
  finally show ?thesis using h1 by simp
qed

text \<open>
  With the search term "zzz" the created note is in the collection and not in the
  visible list, which is empty. With no search term and a clock reading of 500 after a
  seeding at 1000, the created note is last.
\<close>

theorem new_note_not_first_counterexample:
  "mode searchingThenCreating = Create
   \<and> notes (snd (handleSaveNote (clockAt 2000) searchingThenCreating))
       = \<lparr> noteId = ''note_2000'', title = ''Shopping List'', content = [],
           createdAt = 2000, updatedAt = 2000 \<rparr> # seedNotes seed0
   \<and> visibleNotes (snd (handleSaveNote (clockAt 2000) searchingThenCreating)) = []
   \<and> mode creatingShopping = Create
   \<and> searchTerm creatingShopping = []
   \<and> visibleNotes (snd (handleSaveNote (clockAt 500) creatingShopping))
       = seedNotes seed0 @ [\<lparr> noteId = ''note_500'', title = ''Shopping List'', content = ''Milk'',
           createdAt = 500, updatedAt = 500 \<rparr>]"
  by code_simp

subsection \<open>Ids\<close>

lemma digitChar_inj: "a < 10 \<Longrightarrow> b < 10 \<Longrightarrow> digitChar a = digitChar b \<Longrightarrow> a = b"
proof -
  assume a: "a < 10" and b: "b < 10" and e: "digitChar a = digitChar b"
  from e have "(of_char (digitChar a) :: nat) = of_char (digitChar b)" by simp
  with a b show "a = b" by (simp add: digitChar_def)
qed

lemma showNat_small: "n < 10 \<Longrightarrow> showNat n = [digitChar n]"
  by (subst showNat.simps) simp

lemma showNat_big: "\<not> n < 10 \<Longrightarrow> showNat n = showNat (n div 10) @ [digitChar (n mod 10)]"
  by (subst showNat.simps) simp

lemma showNat_nonempty: "showNat n \<noteq> []"
  by (cases "n < 10") (simp_all add: showNat_small showNat_big)

lemma showNat_inj: "showNat n = showNat m \<Longrightarrow> n = m"
proof (induction n arbitrary: m rule: showNat.induct)
  case (1 n)
  show ?case
  proof (cases "n < 10")
    case small: True
    show ?thesis
    proof (cases "m < 10")
      case True
      with small "1.prems" show ?thesis
        by (auto simp: showNat_small dest: digitChar_inj)
    next
      case False
      with small "1.prems" show ?thesis
        using showNat_nonempty [of "m div 10"] by (simp add: showNat_small showNat_big)
    qed
  next
    case big: False
    show ?thesis
    proof (cases "m < 10")
      case True
      with big "1.prems" show ?thesis
        using showNat_nonempty [of "n div 10"] by (simp add: showNat_small showNat_big)
    next
      case False
      with big "1.prems" have e: "showNat (n div 10) = showNat (m div 10)"
        and d: "digitChar (n mod 10) = digitChar (m mod 10)"
        by (simp_all add: showNat_big)
      from "1.IH" [OF big e] have q: "n div 10 = m div 10" .
      have r: "n mod 10 = m mod 10"
        by (rule digitChar_inj [OF _ _ d]) simp_all
      from q r show ?thesis by (metis div_mult_mod_eq)
    qed
  qed
qed

lemma digitChar_not_minus: "d < 10 \<Longrightarrow> digitChar d \<noteq> CHR ''-''"
proof
  assume d: "d < 10" and e: "digitChar d = CHR ''-''"
  from e have "(of_char (digitChar d) :: nat) = of_char (CHR ''-'')" by simp
  with d show False by (simp add: digitChar_def)
qed

lemma showNat_no_minus: "CHR ''-'' \<notin> set (showNat n)"
proof (induction n rule: showNat.induct)
  case (1 n)
  show ?case
  proof (cases "n < 10")
    case True
    then show ?thesis using digitChar_not_minus [of n] by (auto simp: showNat_small)
  next
    case False
    with "1.IH" show ?thesis
      using digitChar_not_minus [of "n mod 10"] by (auto simp: showNat_big)
  qed
qed

lemma numberToString_inj: "numberToString i = numberToString j \<Longrightarrow> i = j"
proof -
  assume e: "numberToString i = numberToString j"
  have neg: "showNat a \<noteq> CHR ''-'' # showNat b" for a b
    using showNat_no_minus [of a] by (metis list.set_intros(1))
  show "i = j"
  proof (cases "i < 0")
    case True
    show ?thesis
    proof (cases "j < 0")
      case jn: True
      with True e have "showNat (nat (- i)) = showNat (nat (- j))"
        by (simp add: numberToString_def)
      then have "nat (- i) = nat (- j)" by (rule showNat_inj)
      with True jn show ?thesis by simp
    next
      case False
      with True e neg show ?thesis by (simp add: numberToString_def) metis
    qed
  next
    case False
    show ?thesis
    proof (cases "j < 0")
      case True
      with False e neg show ?thesis by (simp add: numberToString_def)
    next
      case jp: False
      with False e have "showNat (nat i) = showNat (nat j)"
        by (simp add: numberToString_def)
      then have "nat i = nat j" by (rule showNat_inj)
      with False jp show ?thesis by simp
    qed
  qed
qed

lemma stampedIds_mono: "U \<subseteq> V \<Longrightarrow> stampedIds U \<subseteq> stampedIds V"
  by (auto simp: stampedIds_def)

lemma idsOk_mono: "U \<subseteq> V \<Longrightarrow> idsOk U s \<Longrightarrow> idsOk V s"
  using stampedIds_mono [of U V] by (auto simp: idsOk_def)

lemma fresh_stamp: "t \<notin> U \<Longrightarrow> ''note_'' @ numberToString t \<notin> stampedIds U"
  by (auto simp: stampedIds_def dest: numberToString_inj)

lemma idsOk_render: "idsOk U s \<Longrightarrow> idsOk U (render s)"
  by (simp add: idsOk_def render_def distinct_map_sortBy set_sortBy)

lemma idsOk_seedEffect: "idsOk U s \<Longrightarrow> idsOk U (seedEffect sd s)"
  by (simp add: idsOk_def seedEffect_def seedNotes_def stampedIds_def)

lemma idsOk_delete: "idsOk U s \<Longrightarrow> idsOk U (handleDeleteNoteClick c x s)"
  by (auto simp: idsOk_def handleDeleteNoteClick_def distinct_map_filter)

lemma map_noteId_update:
  "map noteId (map (\<lambda>n. if P n then n\<lparr>title := a, content := b, updatedAt := c\<rparr> else n) ns)
   = map noteId ns"
  by (induction ns) simp_all

lemma idsOk_save:
  assumes "idsOk U s" and "dateNow clk \<notin> U"
  shows "idsOk (insert (dateNow clk) U) (snd (handleSaveNote clk s))"
proof -
  from assms(1) have mono: "idsOk (insert (dateNow clk) U) s"
    by (rule idsOk_mono [rotated]) auto
  from assms have d: "distinct (map noteId (notes s))"
    and sub: "noteId ` set (notes s) \<subseteq> stampedIds U"
    by (simp_all add: idsOk_def)
  from fresh_stamp [OF assms(2)] sub
  have fresh: "''note_'' @ numberToString (dateNow clk) \<notin> noteId ` set (notes s)" by blast
  have new: "''note_'' @ numberToString (dateNow clk) \<in> stampedIds (insert (dateNow clk) U)"
    by (simp add: stampedIds_def)
  have upd: "idsOk (insert (dateNow clk) U)
       (s\<lparr>notes := map (\<lambda>n. if noteId n = i
                                   then n\<lparr>title := a, content := b, updatedAt := c\<rparr>
                                   else n) (notes s),
                selectedNoteId := Some i, mode := View\<rparr>)" for i a b c
  proof -
    let ?g = "\<lambda>n. if noteId n = i then n\<lparr>title := a, content := b, updatedAt := c\<rparr> else n"
    have e: "map noteId (map ?g (notes s)) = map noteId (notes s)"
      by (rule map_noteId_update)
    have "noteId ` set (map ?g (notes s)) = set (map noteId (map ?g (notes s)))"
      by (simp only: set_map)
    also have "\<dots> = noteId ` set (notes s)"
      by (simp only: e set_map)
    finally have im: "noteId ` set (map ?g (notes s)) = noteId ` set (notes s)" .
    have n: "notes (s\<lparr>notes := map ?g (notes s), selectedNoteId := Some i, mode := View\<rparr>)
             = map ?g (notes s)"
      by simp
    from mono show ?thesis
      unfolding idsOk_def n e im .
  qed
  have cr: "idsOk (insert (dateNow clk) U)
       (s\<lparr>notes := \<lparr> noteId = ''note_'' @ numberToString (dateNow clk),
                                title = a, content = b,
                                createdAt = c, updatedAt = e \<rparr> # notes s,
                      selectedNoteId := i, mode := View\<rparr>)" for a b c e i
    using mono fresh new by (simp add: idsOk_def)
  have vw: "idsOk (insert (dateNow clk) U) (s\<lparr>mode := View\<rparr>)"
    using mono by (simp add: idsOk_def)
  show ?thesis
    using mono upd cr vw
    by (simp add: handleSaveNote_def Let_def split: option.splits)
qed

lemma idsOk_handle_other:
  assumes "idsOk U s" and "\<And>clk. ev \<noteq> SaveNote clk"
  shows "idsOk U (handle ev s)"
proof (cases ev)
  case (DeleteNoteClick x c)
  with assms(1) show ?thesis by (simp add: idsOk_delete)
next
  case (SaveNote clk)
  with assms(2) [of clk] show ?thesis by simp
next
  case EditNoteClick
  with assms(1) show ?thesis
    by (simp add: idsOk_def handleEditNoteClick_def split: option.splits)
qed (use assms(1) in \<open>simp_all add: idsOk_def handleSelectNote_def handleCreateNoteClick_def
      Let_def onCancel_def handleSidebarToggle_def handleSearchChange_def setEditTitle_def
      setEditContent_def handleResize_def\<close>)

lemma idsOk_mount: "idsOk {} (mount w sd)"
proof -
  have "idsOk {} (initialState w)" by (simp add: idsOk_def initialState_def)
  then show ?thesis unfolding mount_def
    by (intro idsOk_render idsOk_seedEffect)
qed

lemma idsOk_save_other:
  assumes "idsOk U s" and "\<not> createsNote s"
  shows "idsOk U (snd (handleSaveNote clk s))"
proof -
  have upd: "idsOk U
       (s\<lparr>notes := map (\<lambda>n. if noteId n = i
                                   then n\<lparr>title := a, content := b, updatedAt := c\<rparr>
                                   else n) (notes s),
                selectedNoteId := Some i, mode := View\<rparr>)" for i a b c
  proof -
    let ?g = "\<lambda>n. if noteId n = i then n\<lparr>title := a, content := b, updatedAt := c\<rparr> else n"
    have e: "map noteId (map ?g (notes s)) = map noteId (notes s)"
      by (rule map_noteId_update)
    have "noteId ` set (map ?g (notes s)) = set (map noteId (map ?g (notes s)))"
      by (simp only: set_map)
    also have "\<dots> = noteId ` set (notes s)"
      by (simp only: e set_map)
    finally have im: "noteId ` set (map ?g (notes s)) = noteId ` set (notes s)" .
    have n: "notes (s\<lparr>notes := map ?g (notes s), selectedNoteId := Some i, mode := View\<rparr>)
             = map ?g (notes s)"
      by simp
    from assms(1) show ?thesis
      unfolding idsOk_def n e im .
  qed
  have vw: "idsOk U (s\<lparr>mode := View\<rparr>)"
    using assms(1) by (simp add: idsOk_def)
  show ?thesis
  proof (cases "trim (editTitle s) = []")
    case True
    with assms(1) show ?thesis by (simp add: handleSaveNote_def)
  next
    case False
    with assms(2) have "mode s \<noteq> Create" by (simp add: createsNote_def)
    with False upd vw show ?thesis
      by (simp add: handleSaveNote_def split: option.splits)
  qed
qed

lemma idsOk_run:
  "idsOk U s \<Longrightarrow> distinct (createStamps s tr) \<Longrightarrow> set (createStamps s tr) \<inter> U = {} \<Longrightarrow>
   idsOk (U \<union> set (createStamps s tr)) (run s tr)"
proof (induction tr arbitrary: s U)
  case Nil
  then show ?case by simp
next
  case (Cons a tr)
  obtain sd ev where a: "a = (sd, ev)" by (cases a)
  let ?s' = "dispatch sd ev s"
  have r: "run s (a # tr) = run ?s' tr" using a by simp
  show ?case
  proof (cases "(\<exists>clk. ev = SaveNote clk) \<and> createsNote s")
    case True
    then obtain clk where ev: "ev = SaveNote clk" and cr: "createsNote s" by blast
    have st: "createStamps s (a # tr) = dateNow clk # createStamps ?s' tr"
      using a ev cr by simp
    from Cons.prems(2,3) have fresh: "dateNow clk \<notin> U"
      and d: "distinct (createStamps ?s' tr)"
      and nin: "dateNow clk \<notin> set (createStamps ?s' tr)"
      and disj: "set (createStamps ?s' tr) \<inter> U = {}"
      unfolding st by auto
    from idsOk_save [OF Cons.prems(1) fresh]
    have "idsOk (insert (dateNow clk) U) ?s'"
      unfolding dispatch_def ev by (intro idsOk_render idsOk_seedEffect) simp
    moreover from nin disj have "set (createStamps ?s' tr) \<inter> insert (dateNow clk) U = {}" by auto
    ultimately have "idsOk (insert (dateNow clk) U \<union> set (createStamps ?s' tr)) (run ?s' tr)"
      using d by (intro Cons.IH)
    moreover have "insert (dateNow clk) U \<union> set (createStamps ?s' tr)
                   = U \<union> set (createStamps s (a # tr))"
      unfolding st by simp
    ultimately show ?thesis using r by simp
  next
    case False
    then have st: "createStamps s (a # tr) = createStamps ?s' tr"
      using a by (cases ev) auto
    have "idsOk U (handle ev s)"
    proof (cases "\<exists>clk. ev = SaveNote clk")
      case True
      then obtain clk where ev: "ev = SaveNote clk" by blast
      with False have "\<not> createsNote s" by simp
      from idsOk_save_other [OF Cons.prems(1) this] ev show ?thesis by simp
    next
      case False
      then have "\<And>clk. ev \<noteq> SaveNote clk" by blast
      with Cons.prems(1) show ?thesis by (rule idsOk_handle_other)
    qed
    then have "idsOk U ?s'"
      unfolding dispatch_def by (intro idsOk_render idsOk_seedEffect)
    with Cons.prems(2,3) have "idsOk (U \<union> set (createStamps ?s' tr)) (run ?s' tr)"
      unfolding st by (intro Cons.IH)
    then show ?thesis using r st by simp
  qed
qed

text \<open>A save in creating mode with a title that is not blank puts the stamped note in front.\<close>

lemma create_adds_stamped_note:
  assumes "createsNote s"
  shows "handleSaveNote clk s
    = (None,
       s\<lparr>notes := \<lparr> noteId = ''note_'' @ numberToString (dateNow clk),
                       title = editTitle s, content = editContent s,
                       createdAt = createdNow clk, updatedAt = updatedNow clk \<rparr> # notes s,
         selectedNoteId := Some (''note_'' @ numberToString (dateNow clk)), mode := View\<rparr>)"
  using assms by (simp add: createsNote_def handleSaveNote_def Let_def)

text \<open>
  Where the readings differ. In every state reached from the mounted, seeded state by a
  sequence of events (select, create, edit, delete, save, cancel, search, typing,
  toggle, resize) whose creating saves read pairwise distinct values from
  \<^verbatim>\<open>Date.now()\<close>, the ids of the collection are pairwise distinct, and the id a further
  create would get from a reading not used before is not in the collection.
\<close>

lemma distinct_stamps_distinct_ids:
  assumes "distinct (createStamps (mount w sd) tr)"
  shows "distinct (map noteId (notes (run (mount w sd) tr)))
    \<and> (t \<notin> set (createStamps (mount w sd) tr) \<longrightarrow>
         ''note_'' @ numberToString t \<notin> noteId ` set (notes (run (mount w sd) tr)))"
proof -
  from idsOk_run [OF idsOk_mount assms]
  have ok: "idsOk (set (createStamps (mount w sd) tr)) (run (mount w sd) tr)" by simp
  then have "distinct (map noteId (notes (run (mount w sd) tr)))" by (simp add: idsOk_def)
  moreover from ok fresh_stamp [of t "set (createStamps (mount w sd) tr)"]
  have "t \<notin> set (createStamps (mount w sd) tr) \<longrightarrow>
         ''note_'' @ numberToString t \<notin> noteId ` set (notes (run (mount w sd) tr))"
    by (auto simp: idsOk_def)
  ultimately show ?thesis by blast
qed

lemma distinct_stamps_distinct_ids_example:
  "createStamps mounted twoCreates = [2000, 2001]
   \<and> distinct (map noteId (notes (run mounted twoCreates)))
   \<and> ''note_2002'' \<notin> noteId ` set (notes (run mounted twoCreates))"
proof -
  have e: "createStamps (mount 1024 seed0) twoCreates = [2000, 2001]"
    unfolding mounted_def [symmetric] by code_simp
  then have h: "distinct (createStamps (mount 1024 seed0) twoCreates)"
    and f: "2002 \<notin> set (createStamps (mount 1024 seed0) twoCreates)"
    by simp_all
  have n: "numberToString 2002 = ''2002''" by code_simp
  from distinct_stamps_distinct_ids [OF h, where t = 2002] e f n
  show ?thesis by (simp add: mounted_def)
qed

text \<open>
  C2. Any two notes of the collection are to have distinct ids, each create assigning
  an id that is not yet present. The id is \<^verbatim>\<open>"note_" + Date.now()\<close> and nothing compares
  it with the ids of the collection: after mounting, two rounds of New Note, a typed
  title and Save that both read 2000 leave two notes with the id \<open>note_2000\<close>.
\<close>

theorem same_millisecond_same_id:
  "createStamps mounted twoCreatesSameMs = [2000, 2000]
   \<and> map noteId (notes (run mounted twoCreatesSameMs)) = [''note_2000'', ''note_2000'', ''note1'', ''note2'']
   \<and> \<not> distinct (map noteId (notes (run mounted twoCreatesSameMs)))"
  by code_simp

end
